theory Spec2Isabelle
  imports Main "HOL-Library.Sublist"
begin

section \<open>Python strings\<close>

text \<open>
  A Python \<open>str\<close> is a sequence of Unicode code points; a code point is modelled by its
  number, the integer that \<open>ord\<close> returns. String literals of the source are written
  \<open>lit ''...''\<close>.
\<close>

type_synonym pystr = "int list"

definition lit :: "string \<Rightarrow> pystr" where
  "lit s = map of_char s"

text \<open>\<open>pat in s\<close> for two strings: \<open>pat\<close> occurs in \<open>s\<close> as a contiguous substring.\<close>

fun contains :: "pystr \<Rightarrow> pystr \<Rightarrow> bool" where
  "contains pat [] = (pat = [])"
| "contains pat (c # cs) = (prefix pat (c # cs) \<or> contains pat cs)"

text \<open>
  \<open>str.isspace\<close> on one code point. The same predicate decides \<open>\s\<close> in a \<open>str\<close> pattern of
  \<open>re\<close> and what \<open>str.strip()\<close> removes: U+0009..000D, U+001C..0020, U+0085, U+00A0, U+1680,
  U+2000..200A, U+2028, U+2029, U+202F, U+205F, U+3000.
\<close>

definition isspace :: "int \<Rightarrow> bool" where
  "isspace c =
     ((9 \<le> c \<and> c \<le> 13) \<or> (28 \<le> c \<and> c \<le> 32) \<or> c = 133 \<or> c = 160 \<or> c = 5760
      \<or> (8192 \<le> c \<and> c \<le> 8202) \<or> c = 8232 \<or> c = 8233 \<or> c = 8239 \<or> c = 8287
      \<or> c = 12288)"

definition strip :: "pystr \<Rightarrow> pystr" where
  "strip s = rev (dropWhile isspace (rev (dropWhile isspace s)))"

text \<open>Decimal \<open>str(n)\<close> of an integer.\<close>

fun str_nat :: "nat \<Rightarrow> pystr" where
  "str_nat n = (if n < 10 then [48 + int n] else str_nat (n div 10) @ [48 + int (n mod 10)])"

declare str_nat.simps [simp del]

definition str_int :: "int \<Rightarrow> pystr" where
  "str_int i = (if i < 0 then 45 # str_nat (nat (- i)) else str_nat (nat i))"

section \<open>URL parsing: \<open>parse_multiple_urls\<close>\<close>

text \<open>The character class \<open>[,\s\n\t]\<close> of the separator pattern.\<close>

definition is_sep :: "int \<Rightarrow> bool" where
  "is_sep c = (c = 44 \<or> isspace c \<or> c = 10 \<or> c = 9)"

text \<open>
  \<open>re.split(r'[,\s\n\t]+', s)\<close>: the scanner cuts \<open>s\<close> at every maximal run of separator
  characters and returns the pieces between the runs, the piece before the first run and the
  piece after the last one included (both may be empty). \<open>cur\<close> is the piece being read and
  \<open>in_run\<close> tells that the previous character belonged to a separator run.
\<close>

fun re_split_from :: "pystr \<Rightarrow> bool \<Rightarrow> pystr \<Rightarrow> pystr list" where
  "re_split_from cur in_run [] = [cur]"
| "re_split_from cur in_run (c # cs) =
     (if is_sep c then
        (if in_run then re_split_from [] True cs else cur # re_split_from [] True cs)
      else re_split_from (cur @ [c]) False cs)"

definition re_split :: "pystr \<Rightarrow> pystr list" where
  "re_split s = re_split_from [] False s"

text \<open>The test of the \<open>if\<close> in the validation loop.\<close>

definition valid_url :: "pystr \<Rightarrow> bool" where
  "valid_url url =
     ((contains (lit ''youtube.com'') url \<or> contains (lit ''youtu.be'') url) \<and>
      (contains (lit ''/watch?'') url \<or>
       contains (lit ''/playlist?'') url \<or>
       contains (lit ''/@'') url \<or>
       contains (lit ''/channel/'') url \<or>
       contains (lit ''/c/'') url \<or>
       contains (lit ''/user/'') url \<or>
       contains (lit ''youtu.be/'') url))"

text \<open>
  The state of the validation loop: the list \<open>valid_urls\<close>, the counter \<open>invalid_count\<close> and
  the lines printed so far.
\<close>

record parse_state =
  valid_urls :: "pystr list"
  invalid_count :: nat
  printed :: "pystr list"

definition parse_step :: "parse_state \<Rightarrow> pystr \<Rightarrow> parse_state" where
  "parse_step st url =
     (if valid_url url then st\<lparr>valid_urls := valid_urls st @ [url]\<rparr>
      else if url \<noteq> [] then
        st\<lparr>printed := printed st @ [lit ''Warning: Skipping invalid URL: '' @ url],
           invalid_count := invalid_count st + 1\<rparr>
      else st)"

definition parse_multiple_urls_run :: "pystr \<Rightarrow> parse_state" where
  "parse_multiple_urls_run input_string =
     (let urls = re_split (strip input_string);
          urls = map strip (filter (\<lambda>url. strip url \<noteq> []) urls);
          st = foldl parse_step \<lparr>valid_urls = [], invalid_count = 0, printed = []\<rparr> urls
      in if invalid_count st > 0 then
           st\<lparr>printed := printed st @
             [lit ''Info: Found '' @ str_nat (length (valid_urls st)) @
              lit '' valid YouTube URLs, skipped '' @ str_nat (invalid_count st) @
              lit '' invalid entries'']\<rparr>
         else st)"

definition parse_multiple_urls :: "pystr \<Rightarrow> pystr list" where
  "parse_multiple_urls input_string = valid_urls (parse_multiple_urls_run input_string)"

text \<open>
  The specification's reading of the same operation: the tokens of a text are its maximal
  non-empty runs of non-separator characters, from left to right.
\<close>

function tokens :: "pystr \<Rightarrow> pystr list" where
  "tokens s =
     (case dropWhile is_sep s of
        [] \<Rightarrow> []
      | c # cs \<Rightarrow> takeWhile (\<lambda>x. \<not> is_sep x) (c # cs) # tokens (dropWhile (\<lambda>x. \<not> is_sep x) (c # cs)))"
  by pat_completeness auto

termination tokens
proof (relation "measure length", goal_cases)
  case 1
  then show ?case by simp
next
  case (2 s c cs)
  have "c # cs = dropWhile is_sep s" using 2 by simp
  then have "\<not> is_sep c"
    by (metis hd_dropWhile list.sel(1) list.distinct(1))
  then have "length (dropWhile (\<lambda>x. \<not> is_sep x) (c # cs)) =
             length (dropWhile (\<lambda>x. \<not> is_sep x) cs)"
    by simp
  moreover have "length (dropWhile (\<lambda>x. \<not> is_sep x) cs) \<le> length cs"
    by (rule length_dropWhile_le)
  moreover have "length (c # cs) \<le> length s"
    using 2 length_dropWhile_le[of is_sep s] by simp
  ultimately have "length (dropWhile (\<lambda>x. \<not> is_sep x) (c # cs)) < length s"
    by simp
  then show ?case by simp
qed

declare tokens.simps [simp del]

section \<open>Exceptions, engine responses and the environment\<close>

text \<open>
  The exceptions of the model, all of them subclasses of \<open>Exception\<close>; the argument is the
  text that \<open>str(e)\<close> returns. \<open>EngineError\<close> stands for any exception raised inside the
  external engine (\<open>yt_dlp\<close>).
\<close>

datatype exn = ValueError pystr | EngineError pystr

fun exn_str :: "exn \<Rightarrow> pystr" where
  "exn_str (ValueError m) = m"
| "exn_str (EngineError m) = m"

text \<open>
  The part of the engine's info dict that the program reads: \<open>info.get('_type')\<close>,
  \<open>info.get('uploader_id')\<close>, \<open>info.get('title')\<close> and \<open>info.get('entries')\<close>; \<open>None\<close> is a
  missing key. The empty dict \<open>{}\<close> is \<open>empty_info\<close>.
\<close>

record info =
  info_type :: "pystr option"
  info_uploader_id :: "pystr option"
  info_title :: "pystr option"
  info_entries :: "pystr list option"

definition empty_info :: info where
  "empty_info = \<lparr>info_type = None, info_uploader_id = None, info_title = None,
                  info_entries = None\<rparr>"

text \<open>An options dict for the engine: keys in insertion order.\<close>

datatype optval = OBool bool | OStr pystr | OInt int | OList "(pystr \<times> pystr) list list"

type_synonym ydl_opts = "(pystr \<times> optval) list"

fun dict_set :: "pystr \<Rightarrow> optval \<Rightarrow> ydl_opts \<Rightarrow> ydl_opts" where
  "dict_set k v [] = [(k, v)]"
| "dict_set k v ((k', v') # d) = (if k' = k then (k, v) # d else (k', v') # dict_set k v d)"

text \<open>
  What the program calls and does not define itself:
  \<^item> \<open>extract_info opts url\<close> is \<open>YoutubeDL(opts).extract_info(url, download=False)\<close>: it raises,
    returns \<open>None\<close>, or returns an info dict;
  \<^item> \<open>download opts urls\<close> is \<open>YoutubeDL(opts).download(urls)\<close>;
  \<^item> \<open>url_query_params url\<close> is \<open>parse_qs(urlparse(url).query)\<close> of the standard library: the keys
    of the dict it returns, or the \<open>ValueError\<close> that \<open>urlparse\<close> raises;
  \<^item> \<open>str_title\<close> is \<open>str.title\<close>.
  The remote state is taken as fixed during a run, so the engine is a function of its arguments.
\<close>

record env =
  extract_info :: "ydl_opts \<Rightarrow> pystr \<Rightarrow> exn + info option"
  download :: "ydl_opts \<Rightarrow> pystr list \<Rightarrow> exn + unit"
  url_query_params :: "pystr \<Rightarrow> exn + pystr list"
  str_title :: "pystr \<Rightarrow> pystr"

text \<open>The calls made to the engine, in order, and the memo table of \<open>get_url_info\<close>.\<close>

datatype call = ExtractInfo ydl_opts pystr | Download ydl_opts "pystr list"

record pstate =
  cache :: "(pystr \<times> (pystr \<times> info)) list"
  calls :: "call list"

definition initial_state :: pstate where
  "initial_state = \<lparr>cache = [], calls = []\<rparr>"

section \<open>The standard library on a concrete interpreter\<close>

text \<open>
  \<open>urllib.parse\<close> of CPython 3.11, for the concrete runs below. \<open>urlsplit_query\<close> follows
  \<open>urlsplit\<close>: strip leading C0 control characters and spaces, remove tab, CR and LF, split the
  scheme off, split the network location off after \<open>//\<close> and raise \<open>ValueError\<close> when it has
  one bracket without the other, then cut the fragment at the first \<open>#\<close> and the query at the
  first \<open>?\<close>. The two later checks of the network location (\<open>_check_bracketed_host\<close>,
  \<open>_checknetloc\<close>) concern a location with both brackets or with non-ASCII characters and are
  not part of this function.
\<close>

definition scheme_char :: "int \<Rightarrow> bool" where
  "scheme_char c =
     ((97 \<le> c \<and> c \<le> 122) \<or> (65 \<le> c \<and> c \<le> 90) \<or> (48 \<le> c \<and> c \<le> 57)
      \<or> c = 43 \<or> c = 45 \<or> c = 46)"

definition ascii_alpha :: "int \<Rightarrow> bool" where
  "ascii_alpha c = ((97 \<le> c \<and> c \<le> 122) \<or> (65 \<le> c \<and> c \<le> 90))"

definition split_scheme :: "pystr \<Rightarrow> pystr" where
  "split_scheme url =
     (let pre = takeWhile (\<lambda>c. c \<noteq> 58) url
      in if 58 \<in> set url \<and> pre \<noteq> [] \<and> ascii_alpha (hd url) \<and> list_all scheme_char pre
         then drop (length pre + 1) url else url)"

definition netloc_delim :: "int \<Rightarrow> bool" where
  "netloc_delim c = (c = 47 \<or> c = 63 \<or> c = 35)"

definition split_query :: "pystr \<Rightarrow> pystr" where
  "split_query url =
     (let url = takeWhile (\<lambda>c. c \<noteq> 35) url
      in if 63 \<in> set url then tl (dropWhile (\<lambda>c. c \<noteq> 63) url) else [])"

definition urlsplit_query :: "pystr \<Rightarrow> exn + pystr" where
  "urlsplit_query url0 =
     (let url = dropWhile (\<lambda>c. 0 \<le> c \<and> c \<le> 32) url0;
          url = filter (\<lambda>c. c \<noteq> 9 \<and> c \<noteq> 13 \<and> c \<noteq> 10) url;
          url = split_scheme url
      in if take 2 url = lit ''//'' then
           (let netloc = takeWhile (\<lambda>c. \<not> netloc_delim c) (drop 2 url);
                url = dropWhile (\<lambda>c. \<not> netloc_delim c) (drop 2 url)
            in if (91 \<in> set netloc \<and> 93 \<notin> set netloc) \<or> (93 \<in> set netloc \<and> 91 \<notin> set netloc)
               then Inl (ValueError (lit ''Invalid IPv6 URL''))
               else Inr (split_query url))
         else Inr (split_query url))"

text \<open>
  \<open>parse_qs\<close> with its default arguments: the fields are the pieces between \<open>&\<close>; a field
  with an empty value or without \<open>=\<close> is dropped; in the name \<open>+\<close> becomes a space and
  \<open>%xx\<close> escapes are decoded; the keys stand in the order of their first occurrence. An escape that decodes to a byte of 0x80 or more is kept as that
  byte here (the library decodes such bytes as UTF-8); either way the name is not an ASCII
  name.
\<close>

fun split_char :: "int \<Rightarrow> pystr \<Rightarrow> pystr list" where
  "split_char sep [] = [[]]"
| "split_char sep (c # cs) =
     (if c = sep then [] # split_char sep cs
      else (case split_char sep cs of [] \<Rightarrow> [[c]] | p # ps \<Rightarrow> (c # p) # ps))"

definition hexval :: "int \<Rightarrow> int option" where
  "hexval c =
     (if 48 \<le> c \<and> c \<le> 57 then Some (c - 48)
      else if 65 \<le> c \<and> c \<le> 70 then Some (c - 55)
      else if 97 \<le> c \<and> c \<le> 102 then Some (c - 87)
      else None)"

fun percent_decode :: "pystr \<Rightarrow> pystr" where
  "percent_decode (c # h1 # h2 # cs) =
     (case (if c = 37 then hexval h1 else None, hexval h2) of
        (Some a, Some b) \<Rightarrow> (16 * a + b) # percent_decode cs
      | _ \<Rightarrow> c # percent_decode (h1 # h2 # cs))"
| "percent_decode cs = cs"

definition unquote_plus :: "pystr \<Rightarrow> pystr" where
  "unquote_plus s = percent_decode (map (\<lambda>c. if c = 43 then 32 else c) s)"

definition parse_qs_keys :: "pystr \<Rightarrow> pystr list" where
  "parse_qs_keys qs =
     (if qs = [] then []
      else rev (remdups (rev
        (map (\<lambda>name_value. unquote_plus (takeWhile (\<lambda>c. c \<noteq> 61) name_value))
          (filter (\<lambda>name_value. name_value \<noteq> [] \<and> 61 \<in> set name_value \<and>
                                tl (dropWhile (\<lambda>c. c \<noteq> 61) name_value) \<noteq> [])
            (split_char 38 qs))))))"

definition cpython_query_params :: "pystr \<Rightarrow> exn + pystr list" where
  "cpython_query_params url =
     (case urlsplit_query url of Inl e \<Rightarrow> Inl e | Inr query \<Rightarrow> Inr (parse_qs_keys query))"

text \<open>
  \<open>str.title\<close> on ASCII letters: the first letter of every run of letters in upper case, the
  others in lower case.
\<close>

fun title_from :: "bool \<Rightarrow> pystr \<Rightarrow> pystr" where
  "title_from prev_cased [] = []"
| "title_from prev_cased (c # cs) =
     (if 97 \<le> c \<and> c \<le> 122 then (if prev_cased then c else c - 32) # title_from True cs
      else if 65 \<le> c \<and> c \<le> 90 then (if prev_cased then c + 32 else c) # title_from True cs
      else c # title_from False cs)"

definition ascii_title :: "pystr \<Rightarrow> pystr" where
  "ascii_title s = title_from False s"

text \<open>\<open>os.path.join\<close> on a POSIX system.\<close>

fun path_join :: "pystr \<Rightarrow> pystr list \<Rightarrow> pystr" where
  "path_join path [] = path"
| "path_join path (b # bs) =
     path_join
       (if prefix (lit ''/'') b then b
        else if path = [] \<or> last path = 47 then path @ b
        else path @ lit ''/'' @ b) bs"

section \<open>Classification: \<open>get_url_info\<close>\<close>

text \<open>The options of the inspection call.\<close>

definition flat_opts :: ydl_opts where
  "flat_opts =
     [(lit ''quiet'', OBool True),
      (lit ''extract_flat'', OBool True),
      (lit ''no_warnings'', OBool True),
      (lit ''skip_download'', OBool True),
      (lit ''playlist_items'', OStr (lit ''1''))]"

definition has_channel_marker :: "pystr \<Rightarrow> bool" where
  "has_channel_marker url =
     (contains (lit ''/@'') url \<or> contains (lit ''/channel/'') url \<or>
      contains (lit ''/c/'') url \<or> contains (lit ''/user/'') url)"

text \<open>
  The fallback on URL patterns, written twice in the source (after \<open>info is None\<close> and in the
  \<open>except\<close> handler): \<open>urlparse\<close> and \<open>parse_qs\<close> run first, then the patterns are tested.
\<close>

definition url_fallback :: "env \<Rightarrow> pystr \<Rightarrow> exn + (pystr \<times> info)" where
  "url_fallback env url =
     (case url_query_params env url of
        Inl e \<Rightarrow> Inl e
      | Inr query_params \<Rightarrow>
          if has_channel_marker url then Inr (lit ''channel'', empty_info)
          else if lit ''list'' \<in> set query_params then Inr (lit ''playlist'', empty_info)
          else Inr (lit ''video'', empty_info))"

text \<open>Truth value of \<open>info.get('uploader_id')\<close>: the key is there and its string is not empty.\<close>

definition truthy :: "pystr option \<Rightarrow> bool" where
  "truthy v = (case v of None \<Rightarrow> False | Some x \<Rightarrow> x \<noteq> [])"

text \<open>The body of the \<open>try\<close> block.\<close>

definition get_url_info_try :: "env \<Rightarrow> pystr \<Rightarrow> exn + (pystr \<times> info)" where
  "get_url_info_try env url =
     (case extract_info env flat_opts url of
        Inl e \<Rightarrow> Inl e
      | Inr None \<Rightarrow> url_fallback env url
      | Inr (Some info) \<Rightarrow>
          (let content_type = (case info_type info of None \<Rightarrow> lit ''video'' | Some t \<Rightarrow> t)
           in if content_type = lit ''playlist'' then
                (if truthy (info_uploader_id info) \<and> has_channel_marker url
                 then Inr (lit ''channel'', info)
                 else Inr (lit ''playlist'', info))
              else Inr (content_type, info)))"

text \<open>
  The undecorated function: the \<open>try\<close> block, and the handler of \<open>except Exception\<close> when the
  block raises. It makes one call to the engine, recorded in the log.
\<close>

definition get_url_info_body ::
  "env \<Rightarrow> pystr \<Rightarrow> call list \<Rightarrow> (exn + (pystr \<times> info)) \<times> call list" where
  "get_url_info_body env url log =
     ((case get_url_info_try env url of
         Inl e \<Rightarrow> url_fallback env url
       | Inr r \<Rightarrow> Inr r),
      log @ [ExtractInfo flat_opts url])"

text \<open>
  \<open>@lru_cache(maxsize=128)\<close>: the table is kept with the most recently used key first. A hit
  returns the stored result and moves the key to the front. A miss runs the body; a result is
  stored at the front, after the least recently used entry is dropped when the table already
  holds 128 entries; an exception is passed on and nothing is stored.
\<close>

definition maxsize :: nat where
  "maxsize = 128"

definition get_url_info :: "env \<Rightarrow> pystr \<Rightarrow> pstate \<Rightarrow> (exn + (pystr \<times> info)) \<times> pstate" where
  "get_url_info env url s =
     (case map_of (cache s) url of
        Some r \<Rightarrow> (Inr r, s\<lparr>cache := (url, r) # filter (\<lambda>kv. fst kv \<noteq> url) (cache s)\<rparr>)
      | None \<Rightarrow>
          (case get_url_info_body env url (calls s) of
             (Inl e, log) \<Rightarrow> (Inl e, s\<lparr>calls := log\<rparr>)
           | (Inr r, log) \<Rightarrow>
               (Inr r,
                \<lparr>cache = (url, r) #
                           (if length (cache s) \<ge> maxsize then butlast (cache s) else cache s),
                 calls = log\<rparr>)))"

definition get_content_type :: "env \<Rightarrow> pystr \<Rightarrow> pstate \<Rightarrow> (exn + pystr) \<times> pstate" where
  "get_content_type env url s =
     (case get_url_info env url s of
        (Inl e, s') \<Rightarrow> (Inl e, s')
      | (Inr (content_type, _), s') \<Rightarrow> (Inr content_type, s'))"

text \<open>
  A sequence of classification calls, one per link; what each call returns or raises is left
  to its caller, the state goes on to the next call.
\<close>

fun classify_all :: "env \<Rightarrow> pystr list \<Rightarrow> pstate \<Rightarrow> pstate" where
  "classify_all env [] s = s"
| "classify_all env (url # urls) s = classify_all env urls (snd (get_url_info env url s))"

text \<open>The number of inspection calls that the engine received for one link.\<close>

definition engine_calls :: "pstate \<Rightarrow> pystr \<Rightarrow> nat" where
  "engine_calls s url = length (filter (\<lambda>c. c = ExtractInfo flat_opts url) (calls s))"

section \<open>The fetch worker: \<open>download_single_video\<close>\<close>

definition audio_quality_map :: "(pystr \<times> pystr) list" where
  "audio_quality_map =
     [(lit ''320kbps'', lit ''320''),
      (lit ''256kbps'', lit ''256''),
      (lit ''192kbps'', lit ''192''),
      (lit ''128kbps'', lit ''128''),
      (lit ''64kbps'', lit ''64'')]"

definition video_quality_map :: "(pystr \<times> pystr) list" where
  "video_quality_map =
     [(lit ''1080p'', lit ''1080''),
      (lit ''720p'', lit ''720''),
      (lit ''480p'', lit ''480''),
      (lit ''360p'', lit ''360''),
      (lit ''240p'', lit ''240'')]"

text \<open>\<open>quality_map.get(quality, default)\<close>.\<close>

definition dict_get :: "(pystr \<times> pystr) list \<Rightarrow> pystr \<Rightarrow> pystr \<Rightarrow> pystr" where
  "dict_get d k dflt = (case map_of d k of None \<Rightarrow> dflt | Some v \<Rightarrow> v)"

definition audio_quality :: "pystr \<Rightarrow> pystr" where
  "audio_quality quality = dict_get audio_quality_map quality (lit ''192'')"

definition video_height :: "pystr \<Rightarrow> pystr" where
  "video_height quality = dict_get video_quality_map quality (lit ''1080'')"

definition format_selector :: "bool \<Rightarrow> pystr \<Rightarrow> pystr" where
  "format_selector audio_only quality =
     (if audio_only then lit ''bestaudio/best''
      else lit ''best[height<='' @ video_height quality @ lit '']/'' @
           lit ''bestvideo[height<='' @ video_height quality @ lit '']+bestaudio/best'')"

definition file_extension :: "bool \<Rightarrow> pystr" where
  "file_extension audio_only = (if audio_only then lit ''mp3'' else lit ''mp4'')"

definition postprocessors :: "bool \<Rightarrow> pystr \<Rightarrow> (pystr \<times> pystr) list list" where
  "postprocessors audio_only quality =
     (if audio_only then
        [[(lit ''key'', lit ''FFmpegExtractAudio''),
          (lit ''preferredcodec'', lit ''mp3''),
          (lit ''preferredquality'', audio_quality quality)]]
      else
        [[(lit ''key'', lit ''FFmpegVideoConvertor''),
          (lit ''preferedformat'', lit ''mp4'')]])"

text \<open>The output template chosen from the content type that \<open>get_url_info\<close> returned.\<close>

definition outtmpl :: "pystr \<Rightarrow> bool \<Rightarrow> pystr \<Rightarrow> pystr" where
  "outtmpl output_path audio_only content_type =
     (if content_type = lit ''playlist'' then
        path_join output_path
          [lit ''%(playlist_title)s'',
           lit ''%(playlist_index)s-%(title)s.'' @ file_extension audio_only]
      else if content_type = lit ''channel'' then
        path_join output_path
          [lit ''%(uploader)s'',
           lit ''%(upload_date)s-%(title)s.'' @ file_extension audio_only]
      else
        path_join output_path [lit ''%(title)s.'' @ file_extension audio_only])"

text \<open>The options dict as it stands when the engine is created.\<close>

definition make_ydl_opts :: "pystr \<Rightarrow> bool \<Rightarrow> pystr \<Rightarrow> pystr \<Rightarrow> ydl_opts" where
  "make_ydl_opts output_path audio_only quality content_type =
     (let ydl_opts =
            [(lit ''format'', OStr (format_selector audio_only quality)),
             (lit ''ignoreerrors'', OBool True),
             (lit ''no_warnings'', OBool False),
             (lit ''extract_flat'', OBool False),
             (lit ''writesubtitles'', OBool False),
             (lit ''writethumbnail'', OBool False),
             (lit ''writeautomaticsub'', OBool False),
             (lit ''postprocessors'', OList (postprocessors audio_only quality)),
             (lit ''keepvideo'', OBool False),
             (lit ''clean_infojson'', OBool True),
             (lit ''retries'', OInt 3),
             (lit ''fragment_retries'', OInt 3),
             (lit ''noplaylist'', OBool False)];
          ydl_opts = (if \<not> audio_only
                      then dict_set (lit ''merge_output_format'') (OStr (lit ''mp4'')) ydl_opts
                      else ydl_opts)
      in dict_set (lit ''outtmpl'') (OStr (outtmpl output_path audio_only content_type)) ydl_opts)"

record outcome =
  url :: pystr
  success :: bool
  message :: pystr

definition thread_tag :: "int \<Rightarrow> pystr" where
  "thread_tag thread_id = lit ''[Thread '' @ str_int thread_id @ lit ''] ''"

text \<open>The outcome built by the handler \<open>except Exception as e\<close>.\<close>

definition error_outcome :: "pystr \<Rightarrow> int \<Rightarrow> exn \<Rightarrow> outcome" where
  "error_outcome u thread_id e =
     \<lparr>url = u, success = False,
      message = thread_tag thread_id @ lit ''Error: '' @ exn_str e\<rparr>"

text \<open>
  The worker. The call of \<open>get_url_info\<close> stands before the \<open>try\<close> block, so what it raises
  leaves the function; inside the block every exception ends in \<open>error_outcome\<close>. The progress
  lines that the worker prints are left out: they format strings and integers and raise
  nothing.
\<close>

definition download_single_video ::
  "env \<Rightarrow> pystr \<Rightarrow> pystr \<Rightarrow> int \<Rightarrow> bool \<Rightarrow> pystr \<Rightarrow> pstate \<Rightarrow> (exn + outcome) \<times> pstate" where
  "download_single_video env u output_path thread_id audio_only quality s =
     (case get_url_info env u s of
        (Inl e, s1) \<Rightarrow> (Inl e, s1)
      | (Inr (content_type, cached_info), s1) \<Rightarrow>
          (let ydl_opts = make_ydl_opts output_path audio_only quality content_type;
               s2 = s1\<lparr>calls := calls s1 @ [ExtractInfo ydl_opts u]\<rparr>
           in case extract_info env ydl_opts u of
                Inl e \<Rightarrow> (Inr (error_outcome u thread_id e), s2)
              | Inr None \<Rightarrow>
                  (Inr \<lparr>url = u, success = False,
                        message = thread_tag thread_id @
                          lit ''Failed to extract video information. Video may be private or unavailable.''\<rparr>,
                   s2)
              | Inr (Some info) \<Rightarrow>
                  (let video_count =
                         length (case info_entries info of None \<Rightarrow> [] | Some es \<Rightarrow> es)
                   in if info_type info = Some (lit ''playlist'') \<and> video_count = 0 then
                        (Inr \<lparr>url = u, success = False,
                              message = thread_tag thread_id @ str_title env content_type @
                                lit '' appears to be empty or private''\<rparr>,
                         s2)
                      else
                        (let s3 = s2\<lparr>calls := calls s2 @ [Download ydl_opts [u]]\<rparr>
                         in case download env ydl_opts [u] of
                              Inl e \<Rightarrow> (Inr (error_outcome u thread_id e), s3)
                            | Inr _ \<Rightarrow>
                                if info_type info = Some (lit ''playlist'') then
                                  (Inr \<lparr>url = u, success = True,
                                        message = thread_tag thread_id @
                                          str_title env content_type @ lit '' '' @ [39] @
                                          (case info_title info of
                                             None \<Rightarrow> lit ''Unknown '' @ str_title env content_type
                                           | Some t \<Rightarrow> t) @ [39] @
                                          lit '' download completed! ('' @ str_nat video_count @
                                          lit '' '' @
                                          (if audio_only then lit ''MP3s'' else lit ''videos'') @
                                          lit '')''\<rparr>,
                                   s3)
                                else
                                  (Inr \<lparr>url = u, success = True,
                                        message = thread_tag thread_id @
                                          (if audio_only then lit ''Audio'' else lit ''Video'') @
                                          lit '' download completed successfully!''\<rparr>,
                                   s3)))))"

section \<open>The coordinator's report: \<open>download_youtube_content\<close>\<close>

text \<open>
  The collecting loop over \<open>as_completed\<close>: \<open>completed\<close> holds what each submitted worker
  returned or raised, one entry per dispatched link, in the order of completion;
  \<open>future.result()\<close> raises what the worker raised.
\<close>

fun collect_results :: "(exn + outcome) list \<Rightarrow> outcome list \<Rightarrow> exn + outcome list" where
  "collect_results [] results = Inr results"
| "collect_results (Inl e # futures) results = Inl e"
| "collect_results (Inr result # futures) results = collect_results futures (results @ [result])"

record batch_report =
  successful :: "outcome list"
  failed :: "outcome list"
  summary :: "pystr list"

text \<open>The summary after the pool has shut down; U+2022 is the bullet of the failure lines.\<close>

definition download_summary :: "pystr \<Rightarrow> outcome list \<Rightarrow> batch_report" where
  "download_summary output_path results =
     (let successful = filter (\<lambda>r. success r) results;
          failed = filter (\<lambda>r. \<not> success r) results
      in \<lparr>successful = successful,
          failed = failed,
          summary =
            [10 # replicate 60 61,
             lit ''DOWNLOAD SUMMARY'',
             replicate 60 61,
             lit ''Successful downloads: '' @ str_nat (length successful),
             lit ''Failed downloads: '' @ str_nat (length failed)] @
            (if failed \<noteq> [] then
               (10 # lit ''Failed URLs:'') #
               concat (map (\<lambda>result. [lit ''   '' @ [8226] @ lit '' '' @ url result,
                                         lit ''     Reason: '' @ message result]) failed)
             else []) @
            (if successful \<noteq> [] then [10 # lit ''All files saved to: '' @ output_path]
             else [])\<rparr>)"

definition download_report :: "pystr \<Rightarrow> (exn + outcome) list \<Rightarrow> exn + batch_report" where
  "download_report output_path completed =
     (case collect_results completed [] of
        Inl e \<Rightarrow> Inl e
      | Inr results \<Rightarrow> Inr (download_summary output_path results))"

text \<open>The options that an engine call was made with.\<close>

fun call_opts :: "call \<Rightarrow> ydl_opts" where
  "call_opts (ExtractInfo opts u) = opts"
| "call_opts (Download opts us) = opts"

section \<open>Concrete environments\<close>

text \<open>
  Environments for the concrete runs: the standard library as modelled above, an engine that
  answers every extraction with the same response, and downloads that succeed.
\<close>

definition const_env :: "(exn + info option) \<Rightarrow> env" where
  "const_env response =
     \<lparr>extract_info = (\<lambda>opts u. response),
      download = (\<lambda>opts us. Inr ()),
      url_query_params = cpython_query_params,
      str_title = ascii_title\<rparr>"

definition video_info :: info where
  "video_info =
     \<lparr>info_type = Some (lit ''video''), info_uploader_id = Some (lit ''@someone''),
      info_title = Some (lit ''A video''), info_entries = None\<rparr>"

definition url_info :: info where
  "url_info =
     \<lparr>info_type = Some (lit ''url''), info_uploader_id = None,
      info_title = None, info_entries = None\<rparr>"

definition empty_playlist_info :: info where
  "empty_playlist_info =
     \<lparr>info_type = Some (lit ''playlist''), info_uploader_id = None,
      info_title = Some (lit ''Mix''), info_entries = Some []\<rparr>"

text \<open>128 distinct short links.\<close>

definition short_links :: "pystr list" where
  "short_links = map (\<lambda>n. lit ''https://youtu.be/v'' @ str_nat n) [0..<128]"

section \<open>Properties of the parser\<close>

lemma contains_iff: "contains pat s \<longleftrightarrow> (\<exists>a b. s = a @ pat @ b)"
proof (induction s)
  case Nil
  then show ?case by auto
next
  case (Cons c cs)
  show ?case
  proof
    assume "contains pat (c # cs)"
    then consider "prefix pat (c # cs)" | "contains pat cs" by auto
    then show "\<exists>a b. c # cs = a @ pat @ b"
    proof cases
      case 1
      then obtain b where "c # cs = pat @ b" by (auto simp: prefix_def)
      then have "c # cs = [] @ pat @ b" by simp
      then show ?thesis by blast
    next
      case 2
      then obtain a b where "cs = a @ pat @ b" using Cons.IH by auto
      then have "c # cs = (c # a) @ pat @ b" by simp
      then show ?thesis by blast
    qed
  next
    assume "\<exists>a b. c # cs = a @ pat @ b"
    then obtain a b where ab: "c # cs = a @ pat @ b" by auto
    show "contains pat (c # cs)"
    proof (cases a)
      case Nil
      then have "prefix pat (c # cs)" using ab by (auto simp: prefix_def)
      then show ?thesis by simp
    next
      case (Cons x xs)
      then have "cs = xs @ pat @ b" using ab by simp
      then have "contains pat cs" using Cons.IH by blast
      then show ?thesis by simp
    qed
  qed
qed

lemma tokens_Nil: "tokens [] = []"
  by (simp add: tokens.simps)

lemma tokens_sep_Cons: "is_sep c \<Longrightarrow> tokens (c # s) = tokens s"
  by (subst tokens.simps, subst (2) tokens.simps) simp

lemma tokens_seps: "\<forall>x\<in>set ws. is_sep x \<Longrightarrow> tokens (ws @ s) = tokens s"
  by (induction ws) (simp_all add: tokens_sep_Cons)

lemma tokens_word:
  assumes "t \<noteq> []" and "\<forall>x\<in>set t. \<not> is_sep x" and "s = [] \<or> is_sep (hd s)"
  shows "tokens (t @ s) = t # tokens s"
proof -
  obtain c cs where t: "t = c # cs" using assms(1) by (cases t) auto
  have nc: "\<not> is_sep c" using assms(2) t by simp
  have d: "dropWhile is_sep (t @ s) = t @ s" using t nc by simp
  have tw: "takeWhile (\<lambda>x. \<not> is_sep x) (t @ s) = t"
    using assms(2,3) by (cases s) (auto simp: takeWhile_append)
  have dw: "dropWhile (\<lambda>x. \<not> is_sep x) (t @ s) = s"
    using assms(2,3) by (cases s) (auto simp: dropWhile_append)
  have "tokens (t @ s) =
     (case t @ s of [] \<Rightarrow> []
      | c # cs \<Rightarrow> takeWhile (\<lambda>x. \<not> is_sep x) (c # cs) #
                 tokens (dropWhile (\<lambda>x. \<not> is_sep x) (c # cs)))"
    by (subst tokens.simps) (simp only: d)
  also have "\<dots> = takeWhile (\<lambda>x. \<not> is_sep x) (t @ s) #
                 tokens (dropWhile (\<lambda>x. \<not> is_sep x) (t @ s))"
    using t by simp
  finally show ?thesis by (simp only: tw dw)
qed

lemma tokens_decompose:
  "tokens s = (case dropWhile is_sep s of [] \<Rightarrow> []
     | c # cs \<Rightarrow> takeWhile (\<lambda>x. \<not> is_sep x) (c # cs) # tokens (dropWhile (\<lambda>x. \<not> is_sep x) (c # cs)))"
  by (rule tokens.simps)

lemma tokens_append_seps:
  "\<forall>x\<in>set ws. is_sep x \<Longrightarrow> tokens (s @ ws) = tokens s"
proof (induction s rule: tokens.induct)
  case (1 s)
  let ?r = "dropWhile is_sep s"
  have s: "s = takeWhile is_sep s @ ?r" by simp
  have pre: "\<forall>x\<in>set (takeWhile is_sep s). is_sep x" by (auto dest: set_takeWhileD)
  show ?case
  proof (cases ?r)
    case Nil
    then have "\<forall>x\<in>set s. is_sep x" using pre s by (metis append_Nil2)
    then have "\<forall>x\<in>set (s @ ws). is_sep x" using 1(2) by auto
    then have "tokens ((s @ ws) @ []) = tokens []" and "tokens (s @ []) = tokens []"
      using \<open>\<forall>x\<in>set s. is_sep x\<close> by (simp_all only: tokens_seps)
    then show ?thesis by simp
  next
    case (Cons c cs)
    let ?w = "takeWhile (\<lambda>x. \<not> is_sep x) (c # cs)"
    let ?q = "dropWhile (\<lambda>x. \<not> is_sep x) (c # cs)"
    have nc: "\<not> is_sep c" using Cons by (metis hd_dropWhile list.sel(1) list.distinct(1))
    have w: "?w \<noteq> []" using nc by simp
    have wf: "\<forall>x\<in>set ?w. \<not> is_sep x" by (auto dest: set_takeWhileD)
    have q: "?q = [] \<or> is_sep (hd ?q)" by (metis hd_dropWhile)
    have r: "?r = ?w @ ?q" using Cons by simp
    have IH: "tokens (?q @ ws) = tokens ?q" using 1(1)[OF Cons] 1(2) by simp
    have q2: "?q @ ws = [] \<or> is_sep (hd (?q @ ws))"
      using q 1(2) by (cases ?q; cases ws) auto
    have "tokens (s @ ws) = tokens (takeWhile is_sep s @ (?w @ (?q @ ws)))"
      using s r by (metis append.assoc)
    also have "\<dots> = tokens (?w @ (?q @ ws))" using pre by (rule tokens_seps)
    also have "\<dots> = ?w # tokens (?q @ ws)" using w wf q2 by (rule tokens_word)
    also have "\<dots> = ?w # tokens ?q" using IH by simp
    also have "\<dots> = tokens (?w @ ?q)" using tokens_word[OF w wf q] by simp
    also have "\<dots> = tokens (takeWhile is_sep s @ (?w @ ?q))" using tokens_seps[OF pre] by simp
    also have "\<dots> = tokens s" using s r by metis
    finally show ?thesis .
  qed
qed

lemma isspace_is_sep: "isspace c \<Longrightarrow> is_sep c"
  by (simp add: is_sep_def)

lemma tokens_strip: "tokens (strip s) = tokens s"
proof -
  let ?a = "dropWhile isspace s"
  have 1: "tokens ?a = tokens s"
  proof -
    have "s = takeWhile isspace s @ ?a" by simp
    moreover have "\<forall>x\<in>set (takeWhile isspace s). is_sep x"
      by (auto dest: set_takeWhileD intro: isspace_is_sep)
    ultimately show ?thesis by (metis tokens_seps)
  qed
  have "rev ?a = takeWhile isspace (rev ?a) @ dropWhile isspace (rev ?a)" by simp
  then have "?a = strip s @ rev (takeWhile isspace (rev ?a))"
    unfolding strip_def by (metis rev_append rev_rev_ident)
  moreover have "\<forall>x\<in>set (rev (takeWhile isspace (rev ?a))). is_sep x"
    by (auto dest: set_takeWhileD intro: isspace_is_sep)
  ultimately have "tokens ?a = tokens (strip s)" by (metis tokens_append_seps)
  then show ?thesis using 1 by simp
qed

lemma strip_no_space: "\<forall>x\<in>set t. \<not> isspace x \<Longrightarrow> strip t = t"
proof -
  assume a: "\<forall>x\<in>set t. \<not> isspace x"
  have d: "\<And>xs. \<forall>x\<in>set xs. \<not> isspace x \<Longrightarrow> dropWhile isspace xs = xs"
    by (case_tac xs) auto
  show ?thesis unfolding strip_def using a by (simp add: d)
qed

lemma re_split_from_sep_free:
  "\<forall>x\<in>set cur. \<not> is_sep x \<Longrightarrow> \<forall>t\<in>set (re_split_from cur b s). \<forall>x\<in>set t. \<not> is_sep x"
proof (induction s arbitrary: cur b)
  case Nil
  then show ?case by simp
next
  case (Cons c cs)
  have e: "\<forall>t\<in>set (re_split_from [] True cs). \<forall>x\<in>set t. \<not> is_sep x"
    by (rule Cons.IH) simp
  show ?case
  proof (cases "is_sep c")
    case True
    then show ?thesis using e Cons.prems by auto
  next
    case False
    have "\<forall>t\<in>set (re_split_from (cur @ [c]) False cs). \<forall>x\<in>set t. \<not> is_sep x"
      using Cons.prems False by (intro Cons.IH) auto
    then show ?thesis using False by simp
  qed
qed

lemma re_split_from_tokens:
  "\<forall>x\<in>set cur. \<not> is_sep x \<Longrightarrow> (b \<Longrightarrow> cur = []) \<Longrightarrow>
   filter (\<lambda>u. u \<noteq> []) (re_split_from cur b s) = tokens (cur @ s)"
proof (induction s arbitrary: cur b)
  case Nil
  then show ?case using tokens_word[of cur "[]"] by (auto simp: tokens_Nil)
next
  case (Cons c cs)
  show ?case
  proof (cases "is_sep c")
    case True
    have IH: "filter (\<lambda>u. u \<noteq> []) (re_split_from [] True cs) = tokens cs"
      using Cons.IH[of "[]" True] by simp
    show ?thesis
    proof (cases "cur = []")
      case True
      then show ?thesis using \<open>is_sep c\<close> IH by (simp add: tokens_sep_Cons)
    next
      case False
      then have nb: "\<not> b" using Cons.prems(2) by auto
      have "tokens (cur @ c # cs) = cur # tokens (c # cs)"
        using False Cons.prems(1) True by (intro tokens_word) auto
      then show ?thesis using True nb False IH by (simp add: tokens_sep_Cons)
    qed
  next
    case False
    have "filter (\<lambda>u. u \<noteq> []) (re_split_from (cur @ [c]) False cs) = tokens ((cur @ [c]) @ cs)"
      using Cons.prems(1) False by (intro Cons.IH) auto
    then show ?thesis using False by simp
  qed
qed


lemma foldl_parse_step_valid:
  "valid_urls (foldl parse_step st us) = valid_urls st @ filter valid_url us"
  by (induction us arbitrary: st) (simp_all add: parse_step_def)

lemma foldl_parse_step_count:
  "invalid_count (foldl parse_step st us) =
   invalid_count st + length (filter (\<lambda>u. \<not> valid_url u \<and> u \<noteq> []) us)"
  by (induction us arbitrary: st) (simp_all add: parse_step_def)

lemma foldl_parse_step_printed:
  "printed (foldl parse_step st us) =
   printed st @ map (\<lambda>u. lit ''Warning: Skipping invalid URL: '' @ u)
                  (filter (\<lambda>u. \<not> valid_url u \<and> u \<noteq> []) us)"
  by (induction us arbitrary: st) (simp_all add: parse_step_def)

lemma tokens_props: "\<forall>t\<in>set (tokens s). t \<noteq> [] \<and> (\<forall>x\<in>set t. \<not> is_sep x)"
proof -
  have "tokens s = filter (\<lambda>u. u \<noteq> []) (re_split_from [] False s)"
    using re_split_from_tokens[of "[]" False s] by simp
  moreover have "\<forall>t\<in>set (re_split_from [] False s). \<forall>x\<in>set t. \<not> is_sep x"
    by (rule re_split_from_sep_free) simp
  ultimately show ?thesis by auto
qed

lemma split_urls_tokens:
  "map strip (filter (\<lambda>url. strip url \<noteq> []) (re_split (strip s))) = tokens s"
proof -
  let ?ps = "re_split (strip s)"
  have free: "\<forall>t\<in>set ?ps. \<forall>x\<in>set t. \<not> is_sep x"
    unfolding re_split_def by (rule re_split_from_sep_free) simp
  have id: "\<forall>t\<in>set ?ps. strip t = t"
  proof
    fix t assume "t \<in> set ?ps"
    then have "\<forall>x\<in>set t. \<not> isspace x" using free isspace_is_sep by blast
    then show "strip t = t" by (rule strip_no_space)
  qed
  have "filter (\<lambda>url. strip url \<noteq> []) ?ps = filter (\<lambda>u. u \<noteq> []) ?ps"
    using id by (intro filter_cong) auto
  moreover have "map strip (filter (\<lambda>u. u \<noteq> []) ?ps) = filter (\<lambda>u. u \<noteq> []) ?ps"
    using id by (intro map_idI) auto
  moreover have "filter (\<lambda>u. u \<noteq> []) ?ps = tokens (strip s)"
    unfolding re_split_def using re_split_from_tokens[of "[]" False "strip s"] by simp
  ultimately show ?thesis by (simp add: tokens_strip)
qed

lemma parse_run_valid_urls:
  "valid_urls (parse_multiple_urls_run s) = filter valid_url (tokens s)"
  by (simp add: parse_multiple_urls_run_def Let_def split_urls_tokens foldl_parse_step_valid)

lemma parse_run_invalid_count:
  "invalid_count (parse_multiple_urls_run s) = length (filter (\<lambda>t. \<not> valid_url t) (tokens s))"
proof -
  have "filter (\<lambda>u. \<not> valid_url u \<and> u \<noteq> []) (tokens s) = filter (\<lambda>t. \<not> valid_url t) (tokens s)"
    using tokens_props[of s] by (intro filter_cong) auto
  then show ?thesis
    by (simp add: parse_multiple_urls_run_def Let_def split_urls_tokens foldl_parse_step_count)
qed

lemma parse_run_warnings:
  "take (length (filter (\<lambda>t. \<not> valid_url t) (tokens s))) (printed (parse_multiple_urls_run s)) =
   map (\<lambda>t. lit ''Warning: Skipping invalid URL: '' @ t) (filter (\<lambda>t. \<not> valid_url t) (tokens s))"
proof -
  have "filter (\<lambda>u. \<not> valid_url u \<and> u \<noteq> []) (tokens s) = filter (\<lambda>t. \<not> valid_url t) (tokens s)"
    using tokens_props[of s] by (intro filter_cong) auto
  then show ?thesis
    by (simp add: parse_multiple_urls_run_def Let_def split_urls_tokens foldl_parse_step_printed)
qed

text \<open>
  Claim C2. For every input string, \<open>parse_multiple_urls\<close> returns exactly the tokens of the
  input (its maximal runs of characters other than comma and whitespace) that pass the test of
  the validation loop, in the order of the input and with duplicates kept, so the empty list
  when no token passes; and every rejected token is counted: the accepted and the counted
  tokens add up to all tokens. The function has no failing branch.
\<close>

theorem parse_multiple_urls_tokens:
  "parse_multiple_urls s = filter valid_url (tokens s) \<and>
   invalid_count (parse_multiple_urls_run s) = length (filter (\<lambda>t. \<not> valid_url t) (tokens s)) \<and>
   length (parse_multiple_urls s) + invalid_count (parse_multiple_urls_run s) = length (tokens s)"
proof -
  have "length (filter valid_url (tokens s)) + length (filter (\<lambda>t. \<not> valid_url t) (tokens s)) =
        length (tokens s)"
    by (rule sum_length_filter_compl)
  then show ?thesis
    by (simp add: parse_multiple_urls_def parse_run_valid_urls parse_run_invalid_count)
qed

theorem parse_multiple_urls_tokens_witness:
  "parse_multiple_urls
     (lit ''https://youtube.com/watch?v=abc, not-a-url https://youtube.com/watch?v=def'') =
   [lit ''https://youtube.com/watch?v=abc'', lit ''https://youtube.com/watch?v=def''] \<and>
   invalid_count (parse_multiple_urls_run
     (lit ''https://youtube.com/watch?v=abc, not-a-url https://youtube.com/watch?v=def'')) = 1"
proof -
  let ?s = "lit ''https://youtube.com/watch?v=abc, not-a-url https://youtube.com/watch?v=def''"
  have t: "tokens ?s = [lit ''https://youtube.com/watch?v=abc'', lit ''not-a-url'',
                         lit ''https://youtube.com/watch?v=def'']"
    by code_simp
  have v: "valid_url (lit ''https://youtube.com/watch?v=abc'')"
          "\<not> valid_url (lit ''not-a-url'')"
          "valid_url (lit ''https://youtube.com/watch?v=def'')"
    by code_simp+
  show ?thesis
    using parse_multiple_urls_tokens[of ?s] by (simp only: t) (simp add: v)
qed

lemma lit_append: "lit (a @ b) = lit a @ lit b"
  by (simp add: lit_def)

lemma contains_append_left: "contains (p @ q) s \<Longrightarrow> contains p s"
proof -
  assume "contains (p @ q) s"
  then obtain a b where "s = a @ (p @ q) @ b" by (auto simp: contains_iff)
  then have "s = a @ p @ (q @ b)" by simp
  then show ?thesis unfolding contains_iff by blast
qed

lemma short_link_valid: "contains (lit ''youtu.be/'') t \<Longrightarrow> valid_url t"
proof -
  assume a: "contains (lit ''youtu.be/'') t"
  have "lit ''youtu.be/'' = lit ''youtu.be'' @ lit ''/''" by (simp add: lit_def)
  then have "contains (lit ''youtu.be'') t" using a contains_append_left by metis
  then show ?thesis using a by (simp add: valid_url_def)
qed

text \<open>
  Claim C10. A token that contains \<open>youtu.be/\<close> is accepted by \<open>parse_multiple_urls\<close> whatever
  else it contains: the substring satisfies the host test and the marker test at once. The
  witness is a link without any other marker, in which \<open>youtu.be\<close> is only the end of a longer
  host name.
\<close>

theorem short_link_accepted:
  "t \<in> set (tokens s) \<Longrightarrow> contains (lit ''youtu.be/'') t \<Longrightarrow>
   valid_url t \<and> t \<in> set (parse_multiple_urls s)"
  by (simp add: short_link_valid parse_multiple_urls_def parse_run_valid_urls)

theorem short_link_accepted_witness:
  "lit ''https://notyoutu.be/x'' \<in> set (tokens (lit ''a https://notyoutu.be/x'')) \<and>
   contains (lit ''youtu.be/'') (lit ''https://notyoutu.be/x'') \<and>
   \<not> contains (lit ''/watch?'') (lit ''https://notyoutu.be/x'') \<and>
   \<not> contains (lit ''/playlist?'') (lit ''https://notyoutu.be/x'') \<and>
   \<not> has_channel_marker (lit ''https://notyoutu.be/x'') \<and>
   lit ''https://notyoutu.be/x'' \<in> set (parse_multiple_urls (lit ''a https://notyoutu.be/x''))"
proof -
  have 1: "lit ''https://notyoutu.be/x'' \<in> set (tokens (lit ''a https://notyoutu.be/x''))"
    by code_simp
  have 2: "contains (lit ''youtu.be/'') (lit ''https://notyoutu.be/x'')" by code_simp
  have 3: "\<not> contains (lit ''/watch?'') (lit ''https://notyoutu.be/x'')"
          "\<not> contains (lit ''/playlist?'') (lit ''https://notyoutu.be/x'')"
          "\<not> has_channel_marker (lit ''https://notyoutu.be/x'')"
    by code_simp+
  show ?thesis using short_link_accepted[OF 1 2] 1 2 3 by simp
qed

section \<open>Quality resolution\<close>

lemma lit_simps:
  "lit [] = []" "lit (c # cs) = of_char c # lit cs"
  by (simp_all add: lit_def)

text \<open>
  Claim C9. Quality resolution is a dictionary lookup with a default, so it is defined for every
  quality string: in audio mode a string outside the five bitrate names resolves to \<open>192\<close>, in
  video mode a string outside the five height names resolves to \<open>1080\<close>, and each recognised
  name resolves to its mapped value. The resolved bitrate is the \<open>preferredquality\<close> of the
  audio post-processor and the resolved height is the cap in the video format selector.
\<close>

theorem quality_resolution:
  "(quality \<notin> {lit ''320kbps'', lit ''256kbps'', lit ''192kbps'', lit ''128kbps'', lit ''64kbps''}
      \<longrightarrow> audio_quality quality = lit ''192'') \<and>
   (quality \<notin> {lit ''1080p'', lit ''720p'', lit ''480p'', lit ''360p'', lit ''240p''}
      \<longrightarrow> video_height quality = lit ''1080'') \<and>
   map audio_quality [lit ''320kbps'', lit ''256kbps'', lit ''192kbps'', lit ''128kbps'', lit ''64kbps'']
     = [lit ''320'', lit ''256'', lit ''192'', lit ''128'', lit ''64''] \<and>
   map video_height [lit ''1080p'', lit ''720p'', lit ''480p'', lit ''360p'', lit ''240p'']
     = [lit ''1080'', lit ''720'', lit ''480'', lit ''360'', lit ''240''] \<and>
   map_of (make_ydl_opts output_path True quality content_type) (lit ''postprocessors'') =
     Some (OList [[(lit ''key'', lit ''FFmpegExtractAudio''), (lit ''preferredcodec'', lit ''mp3''),
                   (lit ''preferredquality'', audio_quality quality)]]) \<and>
   map_of (make_ydl_opts output_path False quality content_type) (lit ''format'') =
     Some (OStr (lit ''best[height<='' @ video_height quality @ lit '']/bestvideo[height<='' @
                 video_height quality @ lit '']+bestaudio/best''))"
proof -
  have a: "quality \<notin> {lit ''320kbps'', lit ''256kbps'', lit ''192kbps'', lit ''128kbps'', lit ''64kbps''}
      \<longrightarrow> audio_quality quality = lit ''192''"
    by (simp add: audio_quality_def dict_get_def audio_quality_map_def)
  have v: "quality \<notin> {lit ''1080p'', lit ''720p'', lit ''480p'', lit ''360p'', lit ''240p''}
      \<longrightarrow> video_height quality = lit ''1080''"
    by (simp add: video_height_def dict_get_def video_quality_map_def)
  have am: "map audio_quality [lit ''320kbps'', lit ''256kbps'', lit ''192kbps'', lit ''128kbps'', lit ''64kbps'']
     = [lit ''320'', lit ''256'', lit ''192'', lit ''128'', lit ''64'']"
    by (simp add: audio_quality_def dict_get_def audio_quality_map_def lit_def)
  have vm: "map video_height [lit ''1080p'', lit ''720p'', lit ''480p'', lit ''360p'', lit ''240p'']
     = [lit ''1080'', lit ''720'', lit ''480'', lit ''360'', lit ''240'']"
    by (simp add: video_height_def dict_get_def video_quality_map_def lit_def)
  have pp: "map_of (make_ydl_opts output_path True quality content_type) (lit ''postprocessors'') =
     Some (OList [[(lit ''key'', lit ''FFmpegExtractAudio''), (lit ''preferredcodec'', lit ''mp3''),
                   (lit ''preferredquality'', audio_quality quality)]])"
    by (simp add: make_ydl_opts_def postprocessors_def lit_simps)
  have fm: "map_of (make_ydl_opts output_path False quality content_type) (lit ''format'') =
     Some (OStr (lit ''best[height<='' @ video_height quality @ lit '']/bestvideo[height<='' @
                 video_height quality @ lit '']+bestaudio/best''))"
    by (simp add: make_ydl_opts_def format_selector_def lit_simps)
  show ?thesis using a v am vm pp fm by blast
qed

theorem quality_resolution_witness:
  "lit ''best'' \<notin> {lit ''320kbps'', lit ''256kbps'', lit ''192kbps'', lit ''128kbps'', lit ''64kbps''} \<and>
   audio_quality (lit ''best'') = lit ''192'' \<and>
   lit ''best'' \<notin> {lit ''1080p'', lit ''720p'', lit ''480p'', lit ''360p'', lit ''240p''} \<and>
   video_height (lit ''best'') = lit ''1080''"
proof -
  have 1: "lit ''best'' \<notin> {lit ''320kbps'', lit ''256kbps'', lit ''192kbps'', lit ''128kbps'', lit ''64kbps''}"
    by (simp add: lit_def)
  have 2: "lit ''best'' \<notin> {lit ''1080p'', lit ''720p'', lit ''480p'', lit ''360p'', lit ''240p''}"
    by (simp add: lit_def)
  show ?thesis using quality_resolution[of "lit ''best''"] 1 2 by blast
qed

section \<open>The batch report\<close>

lemma collect_results_all:
  "collect_results completed acc = Inr results \<Longrightarrow> map Inr acc @ completed = map Inr results"
  by (induction completed acc rule: collect_results.induct) auto

text \<open>
  Claim C8. When every dispatched worker has returned an outcome, the report built from the
  collected outcomes splits them exactly: \<open>successful\<close> holds the outcomes with
  \<open>success = True\<close>, \<open>failed\<close> those with \<open>success = False\<close>, the two counts add up to the
  number of dispatched links, the two count lines of the summary print these two counts, and
  the failure lines of the summary list each failed outcome with its link and its message, in
  order.
\<close>

theorem batch_report_partition:
  assumes "collect_results completed [] = Inr results"
  shows "download_report output_path completed = Inr (download_summary output_path results) \<and>
         successful (download_summary output_path results) = filter success results \<and>
         failed (download_summary output_path results) = filter (\<lambda>r. \<not> success r) results \<and>
         length (successful (download_summary output_path results)) +
           length (failed (download_summary output_path results)) = length completed \<and>
         take 2 (drop 3 (summary (download_summary output_path results))) =
           [lit ''Successful downloads: '' @ str_nat (length (filter success results)),
            lit ''Failed downloads: '' @
              str_nat (length (filter (\<lambda>r. \<not> success r) results))] \<and>
         (failed (download_summary output_path results) \<noteq> [] \<longrightarrow>
            take (2 * length (failed (download_summary output_path results)))
                 (drop 6 (summary (download_summary output_path results))) =
            concat (map (\<lambda>r. [lit ''   '' @ [8226] @ lit '' '' @ url r,
                              lit ''     Reason: '' @ message r])
                        (filter (\<lambda>r. \<not> success r) results)))"
proof -
  have "map Inr results = (completed :: (exn + outcome) list)"
    using collect_results_all[OF assms] by simp
  then have len: "length completed = length results"
    by (metis length_map)
  have part: "length (filter success results) + length (filter (\<lambda>r. \<not> success r) results) =
              length results"
    by (rule sum_length_filter_compl)
  have lines: "length (concat (map (\<lambda>r. [lit ''   '' @ [8226] @ lit '' '' @ url r,
                              lit ''     Reason: '' @ message r]) fs)) = 2 * length fs" for fs :: "outcome list"
    by (induction fs) auto
  show ?thesis
    using assms len part lines[of "filter (\<lambda>r. \<not> success r) results"]
    by (simp add: download_report_def download_summary_def Let_def)
qed

theorem batch_report_partition_witness:
  "collect_results
     [Inr \<lparr>url = lit ''a'', success = True, message = lit ''ok''\<rparr>,
      Inr \<lparr>url = lit ''b'', success = False, message = lit ''Error: x''\<rparr>,
      Inr \<lparr>url = lit ''c'', success = True, message = lit ''ok''\<rparr>] [] =
   Inr [\<lparr>url = lit ''a'', success = True, message = lit ''ok''\<rparr>,
        \<lparr>url = lit ''b'', success = False, message = lit ''Error: x''\<rparr>,
        \<lparr>url = lit ''c'', success = True, message = lit ''ok''\<rparr>] \<and>
   length (successful (download_summary (lit ''out'')
     [\<lparr>url = lit ''a'', success = True, message = lit ''ok''\<rparr>,
      \<lparr>url = lit ''b'', success = False, message = lit ''Error: x''\<rparr>,
      \<lparr>url = lit ''c'', success = True, message = lit ''ok''\<rparr>])) = 2 \<and>
   failed (download_summary (lit ''out'')
     [\<lparr>url = lit ''a'', success = True, message = lit ''ok''\<rparr>,
      \<lparr>url = lit ''b'', success = False, message = lit ''Error: x''\<rparr>,
      \<lparr>url = lit ''c'', success = True, message = lit ''ok''\<rparr>]) =
     [\<lparr>url = lit ''b'', success = False, message = lit ''Error: x''\<rparr>] \<and>
   take 2 (drop 3 (summary (download_summary (lit ''out'')
     [\<lparr>url = lit ''a'', success = True, message = lit ''ok''\<rparr>,
      \<lparr>url = lit ''b'', success = False, message = lit ''Error: x''\<rparr>,
      \<lparr>url = lit ''c'', success = True, message = lit ''ok''\<rparr>]))) =
     [lit ''Successful downloads: 2'', lit ''Failed downloads: 1'']"
proof -
  let ?rs = "[\<lparr>url = lit ''a'', success = True, message = lit ''ok''\<rparr>,
              \<lparr>url = lit ''b'', success = False, message = lit ''Error: x''\<rparr>,
              \<lparr>url = lit ''c'', success = True, message = lit ''ok''\<rparr>]"
  have c: "collect_results (map Inr ?rs) [] = Inr ?rs"
    by simp
  have t: "take 2 (drop 3 (summary (download_summary (lit ''out'') ?rs))) =
           [lit ''Successful downloads: '' @ str_nat (length (filter success ?rs)),
            lit ''Failed downloads: '' @ str_nat (length (filter (\<lambda>r. \<not> success r) ?rs))]"
    using batch_report_partition[OF c, of "lit ''out''"] by blast
  have n: "[lit ''Successful downloads: '' @ str_nat (length (filter success ?rs)),
            lit ''Failed downloads: '' @ str_nat (length (filter (\<lambda>r. \<not> success r) ?rs))] =
           [lit ''Successful downloads: 2'', lit ''Failed downloads: 1'']"
    by code_simp
  have k: "take 2 (drop 3 (summary (download_summary (lit ''out'') ?rs))) =
           [lit ''Successful downloads: 2'', lit ''Failed downloads: 1'']"
    using t n by (rule trans)
  have s: "length (successful (download_summary (lit ''out'') ?rs)) = 2"
    by code_simp
  have f: "failed (download_summary (lit ''out'') ?rs) =
           [\<lparr>url = lit ''b'', success = False, message = lit ''Error: x''\<rparr>]"
    by code_simp
  have c': "collect_results
     [Inr \<lparr>url = lit ''a'', success = True, message = lit ''ok''\<rparr>,
      Inr \<lparr>url = lit ''b'', success = False, message = lit ''Error: x''\<rparr>,
      Inr \<lparr>url = lit ''c'', success = True, message = lit ''ok''\<rparr>] [] = Inr ?rs"
    by simp
  show ?thesis using c' s f k by blast
qed

section \<open>Classification\<close>

text \<open>
  Claim C3. The content type is not always one of \<open>video\<close>, \<open>playlist\<close>, \<open>channel\<close>: a type tag
  of the engine other than \<open>playlist\<close> is returned as it is. For a short link with a list
  parameter the flat inspection answers with \<open>_type = 'url'\<close>, and \<open>get_url_info\<close> returns
  \<open>'url'\<close>, against its own docstring.
\<close>

theorem get_url_info_unlisted_type:
  "fst (get_url_info (const_env (Inr (Some url_info))) (lit ''https://youtu.be/abc?list=PL1'')
          initial_state) = Inr (lit ''url'', url_info) \<and>
   lit ''url'' \<notin> {lit ''video'', lit ''playlist'', lit ''channel''}"
  by code_simp

lemma get_url_info_policy:
  "extract_info env flat_opts u = Inr (Some info) \<Longrightarrow> info_type info = Some (lit ''video'') \<Longrightarrow>
     fst (get_url_info_body env u log) = Inr (lit ''video'', info)"
  "extract_info env flat_opts u = Inr (Some info) \<Longrightarrow> info_type info = Some (lit ''playlist'') \<Longrightarrow>
     \<not> truthy (info_uploader_id info) \<or> \<not> has_channel_marker u \<Longrightarrow>
     fst (get_url_info_body env u log) = Inr (lit ''playlist'', info)"
  "extract_info env flat_opts u = Inr (Some info) \<Longrightarrow> info_type info = Some (lit ''playlist'') \<Longrightarrow>
     truthy (info_uploader_id info) \<Longrightarrow> has_channel_marker u \<Longrightarrow>
     fst (get_url_info_body env u log) = Inr (lit ''channel'', info)"
  "extract_info env flat_opts u = Inl e \<or> extract_info env flat_opts u = Inr None \<Longrightarrow>
     url_query_params env u = Inr query_params \<Longrightarrow>
     fst (get_url_info_body env u log) =
       Inr (if has_channel_marker u then lit ''channel''
            else if lit ''list'' \<in> set query_params then lit ''playlist''
            else lit ''video'', empty_info)"
  "extract_info env flat_opts u = Inl e \<or> extract_info env flat_opts u = Inr None \<Longrightarrow>
     url_query_params env u = Inl e' \<Longrightarrow>
     fst (get_url_info_body env u log) = Inl e'"
  by (auto simp: get_url_info_body_def get_url_info_try_def url_fallback_def Let_def lit_def)

text \<open>
  Claim C5. The lemma above is the policy as far as the code follows it. The fallback runs
  \<open>urlparse\<close> before it tests any pattern, in the \<open>try\<close> block and again in the handler: for a
  link with a profile marker whose network location has an opening bracket without the closing
  one, \<open>urlparse\<close> raises \<open>ValueError\<close> both times and \<open>get_url_info\<close> raises instead of
  answering \<open>channel\<close>, whether the engine returned nothing or failed.
\<close>

theorem get_url_info_fallback_raises:
  "valid_url (lit ''http://[youtube.com/@chan'') \<and>
   has_channel_marker (lit ''http://[youtube.com/@chan'') \<and>
   fst (get_url_info (const_env (Inr None)) (lit ''http://[youtube.com/@chan'') initial_state)
     = Inl (ValueError (lit ''Invalid IPv6 URL'')) \<and>
   fst (get_url_info (const_env (Inl (EngineError (lit ''Unsupported URL''))))
          (lit ''http://[youtube.com/@chan'') initial_state)
     = Inl (ValueError (lit ''Invalid IPv6 URL''))"
  by code_simp

section \<open>Memoization\<close>

lemma classify_all_append:
  "classify_all env (us @ vs) s = classify_all env vs (classify_all env us s)"
  by (induction us arbitrary: s) simp_all

lemma map_of_decomposed:
  "u \<notin> fst ` set xs \<Longrightarrow> map_of (xs @ (u, r) # ys) u = Some r"
  by (induction xs) auto

lemma cache_ok_step:
  assumes "distinct (map fst (cache s))" and "length (cache s) \<le> maxsize"
  shows "distinct (map fst (cache (snd (get_url_info env v s)))) \<and>
         length (cache (snd (get_url_info env v s))) \<le> maxsize"
proof (cases "map_of (cache s) v")
  case None
  then have nv: "v \<notin> fst ` set (cache s)" by (simp add: map_of_eq_None_iff)
  obtain res log where b: "get_url_info_body env v (calls s) = (res, log)" by force
  show ?thesis
  proof (cases res)
    case (Inl e)
    then show ?thesis using assms by (simp add: get_url_info_def None b)
  next
    case (Inr r)
    have d: "distinct (map fst (butlast (cache s)))"
      using assms(1) by (simp add: map_butlast distinct_butlast)
    have n: "v \<notin> fst ` set (butlast (cache s))"
      using nv by (auto dest: in_set_butlastD)
    have mp: "0 < maxsize" by (simp add: maxsize_def)
    show ?thesis using assms nv d n mp by (auto simp: get_url_info_def None b Inr)
  qed
next
  case (Some r)
  then have "(v, r) \<in> set (cache s)" by (rule map_of_SomeD)
  then have "length (filter (\<lambda>kv. fst kv \<noteq> v) (cache s)) < length (cache s)"
    by (intro length_filter_less[of "(v, r)"]) auto
  moreover have "distinct (map fst (filter (\<lambda>kv. fst kv \<noteq> v) (cache s)))"
    using assms(1) by (rule distinct_map_filter)
  ultimately show ?thesis using assms(2) by (auto simp: get_url_info_def Some)
qed

lemma cache_ok_classify_all:
  "distinct (map fst (cache s)) \<Longrightarrow> length (cache s) \<le> maxsize \<Longrightarrow>
   distinct (map fst (cache (classify_all env us s))) \<and>
   length (cache (classify_all env us s)) \<le> maxsize"
proof (induction us arbitrary: s)
  case Nil
  then show ?case by simp
next
  case (Cons v us)
  show ?case using Cons.IH cache_ok_step[OF Cons.prems, of env v] by simp
qed

lemma kept_step:
  assumes ok: "distinct (map fst (cache s))" "length (cache s) \<le> maxsize"
      and dec: "cache s = xs @ (u, r) # ys" "fst ` set xs \<subseteq> F"
      and F: "finite F" "card F < maxsize" "u \<notin> F"
      and v: "v = u \<or> v \<in> F"
  shows "\<exists>xs' ys'. cache (snd (get_url_info env v s)) = xs' @ (u, r) # ys' \<and> fst ` set xs' \<subseteq> F"
proof (cases "v = u")
  case True
  have "u \<notin> fst ` set xs" using dec(2) F(3) by auto
  then have "map_of (cache s) u = Some r" unfolding dec(1) by (rule map_of_decomposed)
  then have e: "cache (snd (get_url_info env v s)) =
                (u, r) # filter (\<lambda>kv. fst kv \<noteq> u) (cache s)"
    using True by (simp add: get_url_info_def)
  show ?thesis
    apply (rule exI[of _ "[]"])
    apply (rule exI[of _ "filter (\<lambda>kv. fst kv \<noteq> u) (cache s)"])
    using e by simp
next
  case False
  then have vF: "v \<in> F" using v by simp
  show ?thesis
  proof (cases "map_of (cache s) v")
    case (Some r')
    have "cache (snd (get_url_info env v s)) = (v, r') # filter (\<lambda>kv. fst kv \<noteq> v) (cache s)"
      by (simp add: get_url_info_def Some)
    then have "cache (snd (get_url_info env v s)) =
          ((v, r') # filter (\<lambda>kv. fst kv \<noteq> v) xs) @ (u, r) # filter (\<lambda>kv. fst kv \<noteq> v) ys"
      using False by (simp add: dec(1))
    moreover have "fst ` set ((v, r') # filter (\<lambda>kv. fst kv \<noteq> v) xs) \<subseteq> F"
      using vF dec(2) by auto
    ultimately show ?thesis by blast
  next
    case None
    then have nv: "v \<notin> fst ` set (cache s)" by (simp add: map_of_eq_None_iff)
    obtain res log where b: "get_url_info_body env v (calls s) = (res, log)" by force
    show ?thesis
    proof (cases res)
      case (Inl e)
      then have "cache (snd (get_url_info env v s)) = cache s"
        by (simp add: get_url_info_def None b)
      then have "cache (snd (get_url_info env v s)) = xs @ (u, r) # ys"
        by (simp add: dec(1))
      then show ?thesis using dec(2) by blast
    next
      case (Inr r')
      show ?thesis
      proof (cases "length (cache s) \<ge> maxsize")
        case False
        then have "cache (snd (get_url_info env v s)) = (v, r') # cache s"
          by (simp add: get_url_info_def None b Inr)
        then have "cache (snd (get_url_info env v s)) = ((v, r') # xs) @ (u, r) # ys"
          by (simp add: dec(1))
        moreover have "fst ` set ((v, r') # xs) \<subseteq> F" using vF dec(2) by auto
        ultimately show ?thesis by blast
      next
        case True
        have "distinct (map fst xs)" using ok(1) dec(1) by simp
        then have "length xs = card (fst ` set xs)"
          by (metis distinct_card length_map set_map)
        moreover have "fst ` set xs \<subseteq> F - {v}" using dec nv by auto
        then have "card (fst ` set xs) \<le> card (F - {v})"
          using F(1) by (intro card_mono) auto
        moreover have "card (F - {v}) < card F"
          using F(1) vF by (intro card_Diff1_less) auto
        ultimately have "length xs + 2 \<le> maxsize" using F(2) by linarith
        moreover have "length (cache s) = length xs + 1 + length ys" using dec(1) by simp
        ultimately have "ys \<noteq> []" using True by auto
        then have bl: "butlast (cache s) = xs @ (u, r) # butlast ys"
          using dec(1) by (simp add: butlast_append)
        have "cache (snd (get_url_info env v s)) = (v, r') # butlast (cache s)"
          using True by (simp add: get_url_info_def None b Inr)
        then have "cache (snd (get_url_info env v s)) = ((v, r') # xs) @ (u, r) # butlast ys"
          by (simp add: bl)
        moreover have "fst ` set ((v, r') # xs) \<subseteq> F" using vF dec(2) by auto
        ultimately show ?thesis by blast
      qed
    qed
  qed
qed

lemma kept_classify_all:
  assumes F: "finite F" "card F < maxsize" "u \<notin> F"
  shows "distinct (map fst (cache s)) \<Longrightarrow> length (cache s) \<le> maxsize \<Longrightarrow>
         cache s = xs @ (u, r) # ys \<Longrightarrow> fst ` set xs \<subseteq> F \<Longrightarrow> set us \<subseteq> insert u F \<Longrightarrow>
         \<exists>xs' ys'. cache (classify_all env us s) = xs' @ (u, r) # ys' \<and> fst ` set xs' \<subseteq> F"
proof (induction us arbitrary: s xs ys)
  case Nil
  then show ?case by auto
next
  case (Cons v us)
  have v: "v = u \<or> v \<in> F" using Cons.prems(5) by auto
  obtain xs' ys' where k: "cache (snd (get_url_info env v s)) = xs' @ (u, r) # ys'"
      "fst ` set xs' \<subseteq> F"
    using kept_step[OF Cons.prems(1,2,3,4) F v, of env] by blast
  have ok: "distinct (map fst (cache (snd (get_url_info env v s))))"
           "length (cache (snd (get_url_info env v s))) \<le> maxsize"
    using cache_ok_step[OF Cons.prems(1,2), of env v] by simp_all
  have "set us \<subseteq> insert u F" using Cons.prems(5) by auto
  from Cons.IH[OF ok k this] show ?case by simp
qed

lemma first_cached:
  "fst (get_url_info env u s) = Inr r \<Longrightarrow> \<exists>ys. cache (snd (get_url_info env u s)) = (u, r) # ys"
  by (auto simp: get_url_info_def split: option.splits sum.splits prod.splits)

text \<open>
  Claim C4, as amended. When a classification of a link has returned, and then links are
  classified among which fewer than 128 are distinct and different from it, the next
  classification of the link returns the same result and makes no call to the engine. With no
  link in between this is the case of two calls in a row.
\<close>

theorem get_url_info_memoized_within_window:
  assumes first: "fst (get_url_info env u (classify_all env pre initial_state)) = Inr r"
      and window: "card (set us - {u}) < maxsize"
  shows "fst (get_url_info env u (classify_all env (pre @ u # us) initial_state)) = Inr r \<and>
         calls (snd (get_url_info env u (classify_all env (pre @ u # us) initial_state))) =
         calls (classify_all env (pre @ u # us) initial_state)"
proof -
  let ?s0 = "classify_all env pre initial_state"
  let ?s1 = "snd (get_url_info env u ?s0)"
  let ?s2 = "classify_all env (pre @ u # us) initial_state"
  let ?F = "set us - {u}"
  have s2: "?s2 = classify_all env us ?s1" by (simp add: classify_all_append)
  have ok0: "distinct (map fst (cache ?s0))" "length (cache ?s0) \<le> maxsize"
    using cache_ok_classify_all[of initial_state env pre] by (simp_all add: initial_state_def)
  have ok1: "distinct (map fst (cache ?s1))" "length (cache ?s1) \<le> maxsize"
    using cache_ok_step[OF ok0, of env u] by simp_all
  obtain ys where c1: "cache ?s1 = [] @ (u, r) # ys" using first_cached[OF first] by auto
  have F: "finite ?F" "card ?F < maxsize" "u \<notin> ?F" using window by auto
  have "\<exists>xs' ys'. cache (classify_all env us ?s1) = xs' @ (u, r) # ys' \<and> fst ` set xs' \<subseteq> ?F"
    by (rule kept_classify_all[OF F ok1 c1]) auto
  then obtain xs' ys' where c2: "cache ?s2 = xs' @ (u, r) # ys'" "fst ` set xs' \<subseteq> ?F"
    using s2 by auto
  define s where "s = ?s2"
  have "u \<notin> fst ` set xs'" using c2(2) by auto
  then have "map_of (xs' @ (u, r) # ys') u = Some r" by (rule map_of_decomposed)
  then have "map_of (cache s) u = Some r" using c2(1) by (simp add: s_def)
  then have "fst (get_url_info env u s) = Inr r \<and> calls (snd (get_url_info env u s)) = calls s"
    by (simp add: get_url_info_def)
  then show ?thesis unfolding s_def .
qed

theorem get_url_info_memoized_within_window_witness:
  "fst (get_url_info (const_env (Inr (Some video_info))) (lit ''https://youtu.be/abc'')
          (classify_all (const_env (Inr (Some video_info))) [] initial_state))
     = Inr (lit ''video'', video_info) \<and>
   card (set [lit ''https://youtu.be/def'', lit ''https://youtu.be/abc'',
              lit ''https://youtu.be/ghi''] - {lit ''https://youtu.be/abc''}) < maxsize \<and>
   engine_calls (snd (get_url_info (const_env (Inr (Some video_info))) (lit ''https://youtu.be/abc'')
       (classify_all (const_env (Inr (Some video_info)))
          ([] @ lit ''https://youtu.be/abc'' #
           [lit ''https://youtu.be/def'', lit ''https://youtu.be/abc'', lit ''https://youtu.be/ghi''])
          initial_state))) (lit ''https://youtu.be/abc'') = 1"
proof -
  let ?env = "const_env (Inr (Some video_info))"
  let ?u = "lit ''https://youtu.be/abc''"
  let ?us = "[lit ''https://youtu.be/def'', lit ''https://youtu.be/abc'', lit ''https://youtu.be/ghi'']"
  have f: "fst (get_url_info ?env ?u (classify_all ?env [] initial_state))
             = Inr (lit ''video'', video_info)"
    by code_simp
  have "set ?us - {?u} = {lit ''https://youtu.be/def'', lit ''https://youtu.be/ghi''}"
    by (auto simp: lit_def)
  then have "card (set ?us - {?u}) \<le> 2"
    by (simp add: card_insert_if)
  then have w: "card (set ?us - {?u}) < maxsize" by (simp add: maxsize_def)
  have c: "engine_calls (classify_all ?env ([] @ ?u # ?us) initial_state) ?u = 1"
    by code_simp
  show ?thesis
    using get_url_info_memoized_within_window[OF f w] f w c by (simp add: engine_calls_def)
qed

lemma str_nat_nonempty: "str_nat n \<noteq> []"
  by (subst str_nat.simps) simp

lemma str_nat_inj: "str_nat n = str_nat m \<Longrightarrow> n = m"
proof (induction n arbitrary: m rule: str_nat.induct)
  case (1 n)
  show ?case
  proof (cases "n < 10")
    case True
    then have sn: "str_nat n = [48 + int n]" by (subst str_nat.simps) simp
    show ?thesis
    proof (cases "m < 10")
      case True
      then have "str_nat m = [48 + int m]" by (subst str_nat.simps) simp
      then show ?thesis using sn "1.prems" by simp
    next
      case False
      then have "str_nat m = str_nat (m div 10) @ [48 + int (m mod 10)]"
        by (subst str_nat.simps) simp
      then have "[48 + int n] = str_nat (m div 10) @ [48 + int (m mod 10)]"
        using sn "1.prems" by simp
      then show ?thesis using str_nat_nonempty[of "m div 10"] by simp
    qed
  next
    case False
    then have sn: "str_nat n = str_nat (n div 10) @ [48 + int (n mod 10)]"
      by (subst str_nat.simps) simp
    show ?thesis
    proof (cases "m < 10")
      case True
      then have "str_nat m = [48 + int m]" by (subst str_nat.simps) simp
      then have "str_nat (n div 10) @ [48 + int (n mod 10)] = [48 + int m]"
        using sn "1.prems" by simp
      then show ?thesis using str_nat_nonempty[of "n div 10"] by simp
    next
      case m: False
      then have "str_nat m = str_nat (m div 10) @ [48 + int (m mod 10)]"
        by (subst str_nat.simps) simp
      then have e: "str_nat (n div 10) = str_nat (m div 10)" "n mod 10 = m mod 10"
        using sn "1.prems" by simp_all
      have "n div 10 = m div 10" using "1.IH"[OF False e(1)] .
      then show ?thesis using e(2) by (metis div_mult_mod_eq)
    qed
  qed
qed

lemma short_links_facts:
  "length short_links = maxsize" "distinct short_links"
  "lit ''https://youtu.be/abc'' \<notin> set short_links"
proof -
  show "length short_links = maxsize" by (simp add: short_links_def maxsize_def)
  show "distinct short_links"
    unfolding short_links_def
    by (auto simp: distinct_map inj_on_def dest: str_nat_inj)
  show "lit ''https://youtu.be/abc'' \<notin> set short_links"
    by (auto simp: short_links_def lit_def)
qed

lemma new_entry_keys:
  assumes "length c \<le> maxsize"
  shows "map fst ((u, r) # (if length c \<ge> maxsize then butlast c else c)) =
         take maxsize (u # map fst c)"
proof (cases "length c \<ge> maxsize")
  case True
  then have "length c = maxsize" using assms by simp
  then have "map fst (butlast c) = take (maxsize - 1) (map fst c)"
    by (simp add: butlast_conv_take take_map)
  then show ?thesis using True by (simp add: maxsize_def)
next
  case False
  then show ?thesis by (simp add: maxsize_def)
qed

lemma fresh_run:
  assumes ret: "\<And>u log. get_url_info_body env u log = (Inr (f u), log @ [ExtractInfo flat_opts u])"
  shows "distinct us \<Longrightarrow> set us \<inter> fst ` set (cache s) = {} \<Longrightarrow> length (cache s) \<le> maxsize \<Longrightarrow>
         calls (classify_all env us s) = calls s @ map (ExtractInfo flat_opts) us \<and>
         map fst (cache (classify_all env us s)) = take maxsize (rev us @ map fst (cache s))"
proof (induction us arbitrary: s)
  case Nil
  then show ?case by simp
next
  case (Cons u us)
  let ?s' = "snd (get_url_info env u s)"
  have "u \<notin> fst ` set (cache s)" using Cons.prems(2) by auto
  then have none: "map_of (cache s) u = None" by (simp add: map_of_eq_None_iff)
  have s': "?s' = \<lparr>cache = (u, f u) # (if length (cache s) \<ge> maxsize then butlast (cache s)
                                           else cache s),
                   calls = calls s @ [ExtractInfo flat_opts u]\<rparr>"
    by (simp add: get_url_info_def none ret)
  have keys: "map fst (cache ?s') = take maxsize (u # map fst (cache s))"
    unfolding s' using new_entry_keys[OF Cons.prems(3)] by simp
  have c: "calls ?s' = calls s @ [ExtractInfo flat_opts u]" by (simp add: s')
  have "set (map fst (cache ?s')) \<subseteq> insert u (set (map fst (cache s)))"
    unfolding keys by (auto dest: in_set_takeD)
  then have disj: "set us \<inter> fst ` set (cache ?s') = {}"
    using Cons.prems(1,2) by auto
  have len: "length (cache ?s') \<le> maxsize"
    using arg_cong[OF keys, of length] by simp
  have d: "distinct us" using Cons.prems(1) by simp
  have "take maxsize (rev us @ take maxsize (u # map fst (cache s))) =
        take maxsize (rev us @ u # map fst (cache s))"
    by (simp add: min_def)
  then show ?case using Cons.IH[OF d disj len] keys c by simp
qed

text \<open>
  Claim C4 as stated fails: the table holds 128 entries. After a link, 128 other distinct links
  and the link again, the engine has been called twice for the link.
\<close>

theorem get_url_info_evicted_counterexample:
  "engine_calls (classify_all (const_env (Inr (Some video_info)))
      (lit ''https://youtu.be/abc'' # short_links @ [lit ''https://youtu.be/abc'']) initial_state)
      (lit ''https://youtu.be/abc'') = 2"
proof -
  let ?env = "const_env (Inr (Some video_info))"
  let ?u = "lit ''https://youtu.be/abc''"
  have ret: "\<And>u log. get_url_info_body ?env u log =
                (Inr (lit ''video'', video_info), log @ [ExtractInfo flat_opts u])"
    by (simp add: get_url_info_body_def get_url_info_try_def const_env_def video_info_def
                  Let_def lit_def)
  have "distinct (?u # short_links)" using short_links_facts by simp
  moreover have "set (?u # short_links) \<inter> fst ` set (cache initial_state) = {}"
    by (simp add: initial_state_def)
  moreover have "length (cache initial_state) \<le> maxsize" by (simp add: initial_state_def)
  ultimately have r:
    "calls (classify_all ?env (?u # short_links) initial_state) =
       calls initial_state @ map (ExtractInfo flat_opts) (?u # short_links)"
    "map fst (cache (classify_all ?env (?u # short_links) initial_state)) =
       take maxsize (rev (?u # short_links) @ map fst (cache initial_state))"
    using fresh_run[of ?env "\<lambda>u. (lit ''video'', video_info)", OF ret] by blast+
  define s where "s = classify_all ?env (?u # short_links) initial_state"
  have cs: "calls s = ExtractInfo flat_opts ?u # map (ExtractInfo flat_opts) short_links"
    using r(1) by (simp add: s_def initial_state_def)
  have "map fst (cache s) = take maxsize (rev short_links @ [?u])"
    using r(2) by (simp add: s_def initial_state_def)
  then have "map fst (cache s) = rev short_links"
    using short_links_facts(1) by simp
  then have "?u \<notin> fst ` set (cache s)"
    using short_links_facts(3) by (metis set_map set_rev)
  then have none: "map_of (cache s) ?u = None" by (simp add: map_of_eq_None_iff)
  have "calls (snd (get_url_info ?env ?u s)) = calls s @ [ExtractInfo flat_opts ?u]"
    by (simp add: get_url_info_def none ret)
  moreover have "classify_all ?env (?u # short_links @ [?u]) initial_state =
                 snd (get_url_info ?env ?u s)"
    using classify_all_append[of ?env "?u # short_links" "[?u]" initial_state]
    by (simp add: s_def)
  ultimately have "calls (classify_all ?env (?u # short_links @ [?u]) initial_state) =
      ExtractInfo flat_opts ?u # map (ExtractInfo flat_opts) short_links @ [ExtractInfo flat_opts ?u]"
    using cs by simp
  moreover have "filter (\<lambda>c. c = ExtractInfo flat_opts ?u) (map (ExtractInfo flat_opts) short_links) = []"
    using short_links_facts(3) by (auto simp: filter_empty_conv)
  ultimately show ?thesis by (simp add: engine_calls_def)
qed

section \<open>The fetch worker\<close>

lemma make_ydl_opts_outtmpl:
  "map_of (make_ydl_opts output_path audio_only quality content_type) (lit ''outtmpl'') =
   Some (OStr (outtmpl output_path audio_only content_type))"
  by (cases audio_only) (simp_all add: make_ydl_opts_def Let_def lit_simps)

lemma outtmpl_explicit:
  assumes "output_path \<noteq> []" "last output_path \<noteq> 47"
  shows "outtmpl output_path audio_only (lit ''playlist'') =
           output_path @ lit ''/%(playlist_title)s/%(playlist_index)s-%(title)s.'' @
           file_extension audio_only"
    and "outtmpl output_path audio_only (lit ''channel'') =
           output_path @ lit ''/%(uploader)s/%(upload_date)s-%(title)s.'' @
           file_extension audio_only"
    and "content_type \<noteq> lit ''playlist'' \<Longrightarrow> content_type \<noteq> lit ''channel'' \<Longrightarrow>
         outtmpl output_path audio_only content_type =
           output_path @ lit ''/%(title)s.'' @ file_extension audio_only"
proof -
  show "outtmpl output_path audio_only (lit ''playlist'') =
           output_path @ lit ''/%(playlist_title)s/%(playlist_index)s-%(title)s.'' @
           file_extension audio_only"
    using assms by (simp add: outtmpl_def lit_simps)
  show "outtmpl output_path audio_only (lit ''channel'') =
           output_path @ lit ''/%(uploader)s/%(upload_date)s-%(title)s.'' @
           file_extension audio_only"
    using assms by (simp add: outtmpl_def lit_simps)
  show "content_type \<noteq> lit ''playlist'' \<Longrightarrow> content_type \<noteq> lit ''channel'' \<Longrightarrow>
         outtmpl output_path audio_only content_type =
           output_path @ lit ''/%(title)s.'' @ file_extension audio_only"
    using assms by (simp add: outtmpl_def lit_simps)
qed

lemma download_single_video_calls:
  assumes "get_url_info env u s = (Inr (content_type, cached_info), s1)"
  shows "\<exists>new. calls (snd (download_single_video env u output_path thread_id audio_only quality s))
                 = calls s1 @ new \<and> new \<noteq> [] \<and>
               (\<forall>c\<in>set new. call_opts c =
                   make_ydl_opts output_path audio_only quality content_type)"
  using assms
  by (auto simp: download_single_video_def Let_def split: sum.splits option.splits)

text \<open>
  Claim C7. Every call that the worker makes to the engine carries the output template chosen
  from the content type that classification returned: for \<open>playlist\<close> the template
  \<open>{root}/%(playlist_title)s/%(playlist_index)s-%(title)s.{ext}\<close>, whose file names begin with
  the index that the collection declares, for \<open>channel\<close> the template
  \<open>{root}/%(uploader)s/%(upload_date)s-%(title)s.{ext}\<close>, and otherwise
  \<open>{root}/%(title)s.{ext}\<close>, where \<open>{ext}\<close> is \<open>mp3\<close> in audio mode and \<open>mp4\<close> in video
  mode. The root is a non-empty path without a trailing slash; \<open>outtmpl\<close> gives the join for
  any root.
\<close>

theorem outtmpl_by_content_type:
  assumes "get_url_info env u s = (Inr (content_type, cached_info), s1)"
      and "output_path \<noteq> []" and "last output_path \<noteq> 47"
  shows "\<exists>new. calls (snd (download_single_video env u output_path thread_id audio_only quality s))
                 = calls s1 @ new \<and> new \<noteq> [] \<and>
           (\<forall>c\<in>set new. map_of (call_opts c) (lit ''outtmpl'') =
              Some (OStr
                (if content_type = lit ''playlist'' then
                   output_path @ lit ''/%(playlist_title)s/%(playlist_index)s-%(title)s.'' @
                   file_extension audio_only
                 else if content_type = lit ''channel'' then
                   output_path @ lit ''/%(uploader)s/%(upload_date)s-%(title)s.'' @
                   file_extension audio_only
                 else output_path @ lit ''/%(title)s.'' @ file_extension audio_only)))"
proof -
  obtain new where n:
    "calls (snd (download_single_video env u output_path thread_id audio_only quality s))
       = calls s1 @ new" "new \<noteq> []"
    "\<forall>c\<in>set new. call_opts c = make_ydl_opts output_path audio_only quality content_type"
    using download_single_video_calls[OF assms(1)] by blast
  have "outtmpl output_path audio_only content_type =
        (if content_type = lit ''playlist'' then
           output_path @ lit ''/%(playlist_title)s/%(playlist_index)s-%(title)s.'' @
           file_extension audio_only
         else if content_type = lit ''channel'' then
           output_path @ lit ''/%(uploader)s/%(upload_date)s-%(title)s.'' @
           file_extension audio_only
         else output_path @ lit ''/%(title)s.'' @ file_extension audio_only)"
    using outtmpl_explicit[OF assms(2,3)] by auto
  then show ?thesis using n by (auto simp: make_ydl_opts_outtmpl)
qed

theorem outtmpl_by_content_type_witness:
  "get_url_info (const_env (Inr (Some video_info))) (lit ''https://youtu.be/abc'') initial_state =
     (Inr (lit ''video'', video_info),
      \<lparr>cache = [(lit ''https://youtu.be/abc'', (lit ''video'', video_info))],
       calls = [ExtractInfo flat_opts (lit ''https://youtu.be/abc'')]\<rparr>) \<and>
   lit ''/tmp/out'' \<noteq> [] \<and> last (lit ''/tmp/out'') \<noteq> 47 \<and>
   (\<exists>new. calls (snd (download_single_video (const_env (Inr (Some video_info)))
                     (lit ''https://youtu.be/abc'') (lit ''/tmp/out'') 1 False (lit ''720p'')
                     initial_state))
            = [ExtractInfo flat_opts (lit ''https://youtu.be/abc'')] @ new \<and> new \<noteq> [] \<and>
      (\<forall>c\<in>set new. map_of (call_opts c) (lit ''outtmpl'') =
          Some (OStr (lit ''/tmp/out/%(title)s.mp4''))))"
proof -
  have g: "get_url_info (const_env (Inr (Some video_info))) (lit ''https://youtu.be/abc'') initial_state =
     (Inr (lit ''video'', video_info),
      \<lparr>cache = [(lit ''https://youtu.be/abc'', (lit ''video'', video_info))],
       calls = [ExtractInfo flat_opts (lit ''https://youtu.be/abc'')]\<rparr>)"
    by code_simp
  have p: "lit ''/tmp/out'' \<noteq> []" "last (lit ''/tmp/out'') \<noteq> 47"
    by code_simp+
  have e: "lit ''video'' \<noteq> lit ''playlist''" "lit ''video'' \<noteq> lit ''channel''"
          "lit ''/tmp/out'' @ lit ''/%(title)s.'' @ file_extension False = lit ''/tmp/out/%(title)s.mp4''"
    by code_simp+
  show ?thesis
    using outtmpl_by_content_type[OF g p, where thread_id = 1 and audio_only = False
                                       and quality = "lit ''720p''"] g p e by simp
qed

text \<open>
  Claim C6. Once classification has returned, a metadata resolution that returns nothing ends
  the worker with a failed outcome that says so, and a resolution that returns a playlist with
  no entries ends it with the failed outcome "appears to be empty or private"; in both cases
  the only call made to the engine after classification is that resolution, so nothing is
  downloaded.
\<close>

theorem fetch_fails_fast:
  assumes "get_url_info env u s = (Inr (content_type, cached_info), s1)"
  shows "(extract_info env (make_ydl_opts output_path audio_only quality content_type) u = Inr None
          \<longrightarrow> download_single_video env u output_path thread_id audio_only quality s =
               (Inr \<lparr>url = u, success = False,
                     message = thread_tag thread_id @
                       lit ''Failed to extract video information. Video may be private or unavailable.''\<rparr>,
                s1\<lparr>calls := calls s1 @
                   [ExtractInfo (make_ydl_opts output_path audio_only quality content_type) u]\<rparr>)) \<and>
         (extract_info env (make_ydl_opts output_path audio_only quality content_type) u
            = Inr (Some info) \<and>
          info_type info = Some (lit ''playlist'') \<and>
          (info_entries info = None \<or> info_entries info = Some [])
          \<longrightarrow> download_single_video env u output_path thread_id audio_only quality s =
               (Inr \<lparr>url = u, success = False,
                     message = thread_tag thread_id @ str_title env content_type @
                       lit '' appears to be empty or private''\<rparr>,
                s1\<lparr>calls := calls s1 @
                   [ExtractInfo (make_ydl_opts output_path audio_only quality content_type) u]\<rparr>))"
  using assms
  by (auto simp: download_single_video_def Let_def)

theorem fetch_fails_fast_witness:
  "get_url_info (const_env (Inr (Some empty_playlist_info)))
     (lit ''https://www.youtube.com/playlist?list=PL1'') initial_state =
     (Inr (lit ''playlist'', empty_playlist_info),
      \<lparr>cache = [(lit ''https://www.youtube.com/playlist?list=PL1'',
                  (lit ''playlist'', empty_playlist_info))],
       calls = [ExtractInfo flat_opts (lit ''https://www.youtube.com/playlist?list=PL1'')]\<rparr>) \<and>
   fst (download_single_video (const_env (Inr (Some empty_playlist_info)))
     (lit ''https://www.youtube.com/playlist?list=PL1'') (lit ''/tmp/out'') 2 True (lit ''192kbps'')
     initial_state) =
   Inr \<lparr>url = lit ''https://www.youtube.com/playlist?list=PL1'', success = False,
        message = lit ''[Thread 2] Playlist appears to be empty or private''\<rparr> \<and>
   calls (snd (download_single_video (const_env (Inr (Some empty_playlist_info)))
     (lit ''https://www.youtube.com/playlist?list=PL1'') (lit ''/tmp/out'') 2 True (lit ''192kbps'')
     initial_state)) =
   [ExtractInfo flat_opts (lit ''https://www.youtube.com/playlist?list=PL1''),
    ExtractInfo (make_ydl_opts (lit ''/tmp/out'') True (lit ''192kbps'') (lit ''playlist''))
      (lit ''https://www.youtube.com/playlist?list=PL1'')]"
proof -
  let ?env = "const_env (Inr (Some empty_playlist_info))"
  let ?u = "lit ''https://www.youtube.com/playlist?list=PL1''"
  have g: "get_url_info ?env ?u initial_state =
     (Inr (lit ''playlist'', empty_playlist_info),
      \<lparr>cache = [(?u, (lit ''playlist'', empty_playlist_info))],
       calls = [ExtractInfo flat_opts ?u]\<rparr>)"
    by code_simp
  have x: "extract_info ?env (make_ydl_opts (lit ''/tmp/out'') True (lit ''192kbps'') (lit ''playlist'')) ?u
           = Inr (Some empty_playlist_info)"
    by (simp add: const_env_def)
  have i: "info_type empty_playlist_info = Some (lit ''playlist'')"
          "info_entries empty_playlist_info = Some []"
    by (simp_all add: empty_playlist_info_def)
  have m: "thread_tag 2 @ str_title ?env (lit ''playlist'') @ lit '' appears to be empty or private''
           = lit ''[Thread 2] Playlist appears to be empty or private''"
    by code_simp
  show ?thesis
    using fetch_fails_fast[OF g, where output_path = "lit ''/tmp/out''" and audio_only = True
                               and quality = "lit ''192kbps''" and info = empty_playlist_info
                               and thread_id = 2]
          g x i m
    by simp
qed

lemma download_single_video_catches:
  assumes "get_url_info env u s = (Inr (content_type, cached_info), s1)"
  shows "\<exists>r. fst (download_single_video env u output_path thread_id audio_only quality s) = Inr r \<and>
             url r = u \<and>
             (\<forall>e. extract_info env (make_ydl_opts output_path audio_only quality content_type) u
                     = Inl e \<longrightarrow>
                  r = \<lparr>url = u, success = False,
                       message = thread_tag thread_id @ lit ''Error: '' @ exn_str e\<rparr>) \<and>
             (\<forall>e info. extract_info env (make_ydl_opts output_path audio_only quality content_type) u
                     = Inr (Some info) \<and>
                   \<not> (info_type info = Some (lit ''playlist'') \<and>
                      (info_entries info = None \<or> info_entries info = Some [])) \<and>
                   download env (make_ydl_opts output_path audio_only quality content_type) [u]
                     = Inl e \<longrightarrow>
                  r = \<lparr>url = u, success = False,
                       message = thread_tag thread_id @ lit ''Error: '' @ exn_str e\<rparr>)"
  using assms
  by (auto simp: download_single_video_def Let_def error_outcome_def
           split: sum.splits option.splits)

text \<open>
  Claim C1. The lemma above holds inside the \<open>try\<close> block: there every exception of the engine
  becomes a failed outcome with the engine's text. The worker can raise all the same, because
  it calls \<open>get_url_info\<close> before the block. For a link that the parser accepts and whose
  network location has an opening bracket without the closing one, with an engine that fails
  on the inspection or returns nothing, \<open>urlparse\<close> raises \<open>ValueError\<close> in the handler of \<open>get_url_info\<close> and the
  exception leaves \<open>download_single_video\<close>.
\<close>

theorem download_single_video_raises:
  "valid_url (lit ''http://[youtube.com/watch?v=x'') \<and>
   fst (download_single_video (const_env (Inl (EngineError (lit ''Unsupported URL''))))
          (lit ''http://[youtube.com/watch?v=x'') (lit ''/tmp/out'') 1 False (lit ''1080p'')
          initial_state)
   = Inl (ValueError (lit ''Invalid IPv6 URL'')) \<and>
   fst (download_single_video (const_env (Inr None))
          (lit ''http://[youtube.com/watch?v=x'') (lit ''/tmp/out'') 1 False (lit ''1080p'')
          initial_state)
   = Inl (ValueError (lit ''Invalid IPv6 URL''))"
  by code_simp

end
